theory Spec2Isabelle
  imports Complex_Main
begin

section \<open>Characters and strings\<close>

text \<open>
  Python strings are modelled as HOL strings: a character is a code point below 256.
  The character classes below are those of Python's \<^verbatim>\<open>re\<close> module and of
  \<^verbatim>\<open>str.isspace\<close> on that range.
\<close>

definition code :: "char \<Rightarrow> nat" where
  "code c = of_char c"

definition isspace :: "char \<Rightarrow> bool" where
  \<comment> \<open>\<^verbatim>\<open>\s\<close> and \<^verbatim>\<open>str.isspace\<close>: 9-13, 28-32, 133 and 160\<close>
  "isspace c = (let n = code c in (9 \<le> n \<and> n \<le> 13) \<or> (28 \<le> n \<and> n \<le> 32) \<or> n = 133 \<or> n = 160)"

definition isdigit :: "char \<Rightarrow> bool" where
  \<comment> \<open>\<^verbatim>\<open>\d\<close>: the decimal digits\<close>
  "isdigit c = (let n = code c in 48 \<le> n \<and> n \<le> 57)"

definition isword :: "char \<Rightarrow> bool" where
  \<comment> \<open>\<^verbatim>\<open>\w\<close>: letters, digits, the underscore and the alphanumeric characters of Latin-1\<close>
  "isword c = (let n = code c in
     (48 \<le> n \<and> n \<le> 57) \<or> (65 \<le> n \<and> n \<le> 90) \<or> n = 95 \<or> (97 \<le> n \<and> n \<le> 122) \<or>
     n = 170 \<or> n = 178 \<or> n = 179 \<or> n = 181 \<or> n = 185 \<or> n = 186 \<or> (188 \<le> n \<and> n \<le> 190) \<or>
     (192 \<le> n \<and> n \<le> 214) \<or> (216 \<le> n \<and> n \<le> 246) \<or> (248 \<le> n \<and> n \<le> 255))"

definition strip :: "string \<Rightarrow> string" where
  \<comment> \<open>\<^verbatim>\<open>str.strip()\<close>\<close>
  "strip s = rev (dropWhile isspace (rev (dropWhile isspace s)))"

definition endswith :: "string \<Rightarrow> string \<Rightarrow> bool" where
  \<comment> \<open>\<^verbatim>\<open>s.endswith(suffix)\<close>\<close>
  "endswith s suffix = (length suffix \<le> length s \<and> drop (length s - length suffix) s = suffix)"

definition startswith :: "string \<Rightarrow> string \<Rightarrow> bool" where
  \<comment> \<open>\<^verbatim>\<open>s.startswith(prefix)\<close>\<close>
  "startswith s prefix = (take (length prefix) s = prefix)"

fun join :: "string \<Rightarrow> string list \<Rightarrow> string" where
  \<comment> \<open>\<^verbatim>\<open>sep.join(parts)\<close>\<close>
  "join sep [] = []"
| "join sep [p] = p"
| "join sep (p # q # ps) = p @ sep @ join sep (q # ps)"

section \<open>The standard library's textwrap, with the defaults the program uses\<close>

text \<open>
  \<^verbatim>\<open>textwrap.fill(text, width)\<close> builds a \<^verbatim>\<open>TextWrapper\<close> with the default options:
  tabs expanded to multiples of 8, whitespace replaced by spaces, long words broken
  (\<^verbatim>\<open>break_long_words=True\<close>), hyphenated words breakable (\<^verbatim>\<open>break_on_hyphens=True\<close>),
  whitespace dropped at line ends, no indent, no line limit.
\<close>

datatype exception = TimeoutError | ValueError

definition tw_space :: "char \<Rightarrow> bool" where
  \<comment> \<open>\<^verbatim>\<open>_whitespace = '\t\n\x0b\x0c\r '\<close>\<close>
  "tw_space c = (let n = code c in (9 \<le> n \<and> n \<le> 13) \<or> n = 32)"

definition letter :: "char \<Rightarrow> bool" where
  \<comment> \<open>\<^verbatim>\<open>letter = r'[^\d\W]'\<close>\<close>
  "letter c = (isword c \<and> \<not> isdigit c)"

definition word_punct :: "char \<Rightarrow> bool" where
  \<comment> \<open>\<^verbatim>\<open>word_punct = r'[\w!"\'&.,?]'\<close>\<close>
  "word_punct c = (isword c \<or> c \<in> set ''!\"'' \<or> c = CHR 0x27 \<or> c \<in> set ''&.,?'')"

fun expandtabs :: "nat \<Rightarrow> nat \<Rightarrow> string \<Rightarrow> string" where
  \<comment> \<open>\<^verbatim>\<open>str.expandtabs(tabsize)\<close>; the second argument is the column reached so far\<close>
  "expandtabs tabsize col [] = []"
| "expandtabs tabsize col (c # cs) =
     (if c = CHR 0x09 then
        (if 0 < tabsize then
           (let incr = tabsize - col mod tabsize
            in replicate incr (CHR '' '') @ expandtabs tabsize (col + incr) cs)
         else expandtabs tabsize col cs)
      else if c = CHR 0x0A \<or> c = CHR 0x0D then c # expandtabs tabsize 0 cs
      else c # expandtabs tabsize (col + 1) cs)"

definition munge_whitespace :: "string \<Rightarrow> string" where
  \<comment> \<open>\<^verbatim>\<open>_munge_whitespace\<close>: expand tabs, then translate each whitespace character to a space\<close>
  "munge_whitespace t = map (\<lambda>c. if tw_space c then CHR '' '' else c) (expandtabs 8 0 t)"

definition dashes_then_word :: "string \<Rightarrow> bool" where
  \<comment> \<open>\<^verbatim>\<open>-{2,}\w\<close> matches at the head of the text: a run of two or more hyphens, then a word
      character (giving back a hyphen never helps: the next character is then a hyphen)\<close>
  "dashes_then_word t =
     (let n = length (takeWhile (\<lambda>c. c = CHR ''-'') t)
      in 2 \<le> n \<and> (case drop n t of [] \<Rightarrow> False | c # _ \<Rightarrow> isword c))"

definition hyphen_behind :: "string \<Rightarrow> bool" where
  \<comment> \<open>\<^verbatim>\<open>(?<=lt{2}-) | (?<=lt-lt-)\<close>, read just after a hyphen; the argument is the text
      before that hyphen, latest character first\<close>
  "hyphen_behind seen =
     ((case seen of a # b # _ \<Rightarrow> letter a \<and> letter b | _ \<Rightarrow> False) \<or>
      (case seen of a # h # b # _ \<Rightarrow> letter a \<and> h = CHR ''-'' \<and> letter b | _ \<Rightarrow> False))"

definition hyphen_ahead :: "string \<Rightarrow> bool" where
  \<comment> \<open>\<^verbatim>\<open>(?= lt -? lt)\<close>\<close>
  "hyphen_ahead t =
     ((case t of a # h # b # _ \<Rightarrow> letter a \<and> h = CHR ''-'' \<and> letter b | _ \<Rightarrow> False) \<or>
      (case t of a # b # _ \<Rightarrow> letter a \<and> letter b | _ \<Rightarrow> False))"

fun word_more :: "string \<Rightarrow> string \<Rightarrow> nat" where
  \<comment> \<open>the third alternative of \<^verbatim>\<open>wordsep_re\<close>, \<^verbatim>\<open>nws+? (?: hyphenated | end of word | em-dash)\<close>:
      the lazy run has taken the characters in the first argument (latest first); the
      result counts the further characters of the match\<close>
  "word_more seen [] = 0"
| "word_more seen (d # ds) =
     (if d = CHR ''-'' \<and> hyphen_behind seen \<and> hyphen_ahead ds then 1
      else if tw_space d then 0
      else if (case seen of [] \<Rightarrow> False | c # _ \<Rightarrow> word_punct c) \<and> dashes_then_word (d # ds) then 0
      else Suc (word_more (d # seen) ds))"

fun split :: "string \<Rightarrow> string \<Rightarrow> string list" where
  \<comment> \<open>\<^verbatim>\<open>_split\<close>: \<^verbatim>\<open>wordsep_re.split(text)\<close> without its empty pieces. The pattern matches at
      every position, so the pieces are the successive matches. The first argument is the
      text already consumed, latest character first (the pattern looks behind).\<close>
  "split seen [] = []"
| "split seen (c # cs) =
     (let n =
        (if tw_space c then length (takeWhile tw_space cs)
         else if (case seen of [] \<Rightarrow> False | b # _ \<Rightarrow> word_punct b) \<and> dashes_then_word (c # cs)
           then length (takeWhile (\<lambda>x. x = CHR ''-'') cs)
         else word_more (c # seen) cs)
      in (c # take n cs) # split (rev (take n cs) @ c # seen) (drop n cs))"

definition split_chunks :: "string \<Rightarrow> string list" where
  "split_chunks t = split [] (munge_whitespace t)"

fun take_fitting :: "nat \<Rightarrow> string list \<Rightarrow> nat \<Rightarrow> string list \<Rightarrow> string list \<times> nat \<times> string list" where
  \<comment> \<open>the inner loop of \<^verbatim>\<open>_wrap_chunks\<close>: move chunks to the current line while they fit\<close>
  "take_fitting width cur_line cur_len [] = (cur_line, cur_len, [])"
| "take_fitting width cur_line cur_len (ch # chunks) =
     (if cur_len + length ch \<le> width
      then take_fitting width (cur_line @ [ch]) (cur_len + length ch) chunks
      else (cur_line, cur_len, ch # chunks))"

definition rfind_hyphen :: "string \<Rightarrow> nat \<Rightarrow> nat option" where
  \<comment> \<open>\<^verbatim>\<open>chunk.rfind('-', 0, stop)\<close>: the last index below \<^verbatim>\<open>stop\<close> holding a hyphen\<close>
  "rfind_hyphen chunk stop =
     (case dropWhile (\<lambda>c. c \<noteq> CHR ''-'') (rev (take stop chunk)) of
        [] \<Rightarrow> None
      | _ # front \<Rightarrow> Some (length front))"

definition break_point :: "string \<Rightarrow> nat \<Rightarrow> nat" where
  \<comment> \<open>where \<^verbatim>\<open>_handle_long_word\<close> cuts the chunk: at \<^verbatim>\<open>space_left\<close>, or after the last hyphen
      before it when the chunk is longer and something other than hyphens precedes it\<close>
  "break_point chunk space_left =
     (if space_left < length chunk then
        (case rfind_hyphen chunk space_left of
           Some hyphen \<Rightarrow>
             if 0 < hyphen \<and> list_ex (\<lambda>c. c \<noteq> CHR ''-'') (take hyphen chunk)
             then hyphen + 1 else space_left
         | None \<Rightarrow> space_left)
      else space_left)"

definition handle_long_word :: "string \<Rightarrow> string list \<Rightarrow> nat \<Rightarrow> nat \<Rightarrow> string list \<times> string" where
  \<comment> \<open>\<^verbatim>\<open>_handle_long_word\<close> with \<^verbatim>\<open>break_long_words\<close> and \<^verbatim>\<open>break_on_hyphens\<close> set: returns the
      current line and what is left of the chunk\<close>
  "handle_long_word chunk cur_line cur_len width =
     (let space_left = (if width < 1 then 1 else width - cur_len);
          cut = break_point chunk space_left
      in (cur_line @ [take cut chunk], drop cut chunk))"

definition close_line :: "string list \<Rightarrow> string list \<Rightarrow> string list" where
  \<comment> \<open>the end of a pass of \<^verbatim>\<open>_wrap_chunks\<close>: a last chunk that is all whitespace is dropped,
      and what is left, if anything, is joined and appended to the lines\<close>
  "close_line lines cur_line =
     (let cur_line' = (if cur_line \<noteq> [] \<and> strip (last cur_line) = []
                       then butlast cur_line else cur_line)
      in if cur_line' \<noteq> [] then lines @ [concat cur_line'] else lines)"

definition wrap_step :: "nat \<Rightarrow> string list \<Rightarrow> string list \<Rightarrow> string list \<times> string list" where
  \<comment> \<open>one pass of the outer loop of \<^verbatim>\<open>_wrap_chunks\<close>: the lines and the chunks after it\<close>
  "wrap_step width lines chunks =
     (let chunks1 = (if strip (hd chunks) = [] \<and> lines \<noteq> [] then tl chunks else chunks);
          (cur_line, cur_len, chunks2) = take_fitting width [] 0 chunks1
      in if chunks2 \<noteq> [] \<and> width < length (hd chunks2)
         then (let (cur_line', rest) = handle_long_word (hd chunks2) cur_line cur_len width
               in (close_line lines cur_line', rest # tl chunks2))
         else (close_line lines cur_line, chunks2))"

definition chunks_size :: "string list \<Rightarrow> nat" where
  "chunks_size chunks = length chunks + length (concat chunks)"

text \<open>The outer loop consumes something on every pass, which is why it ends.\<close>

lemma take_fitting_split:
  "take_fitting w cl n chunks = (cl', n', rest) \<Longrightarrow>
     \<exists>taken. chunks = taken @ rest \<and> cl' = cl @ taken \<and> n' = n + length (concat taken) \<and>
             (rest \<noteq> [] \<longrightarrow> w < n' + length (hd rest))"
proof (induction chunks arbitrary: cl n)
  case Nil
  then show ?case by simp
next
  case (Cons ch chunks)
  show ?case
  proof (cases "n + length ch \<le> w")
    case True
    with Cons.prems have "take_fitting w (cl @ [ch]) (n + length ch) chunks = (cl', n', rest)"
      by simp
    from Cons.IH[OF this] obtain taken where
      t: "chunks = taken @ rest" "cl' = (cl @ [ch]) @ taken" "n' = n + length ch + length (concat taken)"
         "rest \<noteq> [] \<longrightarrow> w < n' + length (hd rest)"
      by blast
    show ?thesis
      by (rule exI[of _ "ch # taken"]) (use t in simp)
  next
    case False
    with Cons.prems have "cl' = cl" "n' = n" "rest = ch # chunks" by simp_all
    with False show ?thesis
      by (intro exI[of _ "[]"]) simp
  qed
qed



lemma break_point_pos: "0 < space_left \<Longrightarrow> 0 < break_point chunk space_left"
  by (simp add: break_point_def split: option.splits)

lemma handle_long_word_rest:
  "handle_long_word chunk cl n w = (cl', rest) \<Longrightarrow>
     rest = drop (break_point chunk (if w < 1 then 1 else w - n)) chunk \<and>
     cl' = cl @ [take (break_point chunk (if w < 1 then 1 else w - n)) chunk]"
  by (auto simp: handle_long_word_def Let_def)

lemma handle_long_word_cut:
  assumes "handle_long_word chunk cl 0 w = (cl', rest)" "0 < w" "w < length chunk"
  shows "length rest < length chunk"
proof -
  from handle_long_word_rest[OF assms(1)] assms(2)
  have r: "rest = drop (break_point chunk w) chunk" by simp
  have "0 < break_point chunk w" using assms(2) by (rule break_point_pos)
  with r assms(3) show ?thesis by simp
qed

lemma handle_long_word_le:
  "handle_long_word chunk cl n w = (cl', rest) \<Longrightarrow> length rest \<le> length chunk"
  by (drule handle_long_word_rest) simp

lemma chunks_size_append: "chunks_size (xs @ ys) = chunks_size xs + chunks_size ys"
  by (simp add: chunks_size_def)

lemma chunks_size_Cons: "chunks_size (x # xs) = Suc (length x) + chunks_size xs"
  by (simp add: chunks_size_def)

lemma wrap_step_decreases:
  assumes "chunks \<noteq> []" "0 < width" "wrap_step width lines chunks = (lines', chunks')"
  shows "chunks_size chunks' < chunks_size chunks"
proof -
  define chunks1 where "chunks1 = (if strip (hd chunks) = [] \<and> lines \<noteq> [] then tl chunks else chunks)"
  obtain cur_line cur_len chunks2 where tf: "take_fitting width [] 0 chunks1 = (cur_line, cur_len, chunks2)"
    by (metis prod_cases3)
  from take_fitting_split[OF tf] obtain taken where
    t: "chunks1 = taken @ chunks2" "cur_line = taken" "cur_len = length (concat taken)"
       "chunks2 \<noteq> [] \<longrightarrow> width < cur_len + length (hd chunks2)"
    by auto
  obtain c0 cs0 where ch0: "chunks = c0 # cs0"
    using assms(1) by (cases chunks) auto
  have c1a: "chunks_size chunks1 \<le> chunks_size chunks"
    by (simp add: chunks1_def ch0 chunks_size_Cons)
  have c1b: "chunks1 \<noteq> chunks \<Longrightarrow> chunks_size chunks1 < chunks_size chunks"
    by (simp add: chunks1_def ch0 chunks_size_Cons split: if_splits)
  note c1 = c1a c1b
  show ?thesis
  proof (cases "chunks2 \<noteq> [] \<and> width < length (hd chunks2)")
    case True
    then obtain ch tl2 where c2: "chunks2 = ch # tl2" by (cases chunks2) auto
    obtain cl rest where h: "handle_long_word ch cur_line cur_len width = (cl, rest)"
      by (metis surj_pair)
    have c': "chunks' = rest # tl2"
      using assms(3) tf h True c2
      by (simp add: wrap_step_def chunks1_def[symmetric] Let_def)
    have le: "length rest \<le> length ch" using h by (rule handle_long_word_le)
    show ?thesis
    proof (cases "taken = []")
      case True
      with h t have "handle_long_word ch cur_line 0 width = (cl, rest)" by simp
      from handle_long_word_cut[OF this assms(2)] \<open>chunks2 \<noteq> [] \<and> width < length (hd chunks2)\<close> c2
      have "length rest < length ch" by simp
      with c' c2 t True c1 show ?thesis by (simp add: chunks_size_Cons)
    next
      case False
      then have "0 < chunks_size taken" by (cases taken) (auto simp: chunks_size_Cons)
      with c' c2 t le c1 show ?thesis by (simp add: chunks_size_Cons chunks_size_append)
    qed
  next
    case False
    have c': "chunks' = chunks2"
      using assms(3) tf False
      by (simp add: wrap_step_def chunks1_def[symmetric] Let_def)
    show ?thesis
    proof (cases "taken = []")
      case True
      with t False have "chunks1 = []" by auto
      with assms(1) have "chunks1 \<noteq> chunks" by auto
      from c1(2)[OF this] c' t True show ?thesis by simp
    next
      case False
      then have "0 < chunks_size taken" by (cases taken) (auto simp: chunks_size_Cons)
      with c' t c1 show ?thesis by (simp add: chunks_size_append)
    qed
  qed
qed

function wrap_lines :: "nat \<Rightarrow> string list \<Rightarrow> string list \<Rightarrow> string list" where
  \<comment> \<open>\<^verbatim>\<open>while chunks:\<close> of \<^verbatim>\<open>_wrap_chunks\<close>; the loop is only entered with a positive width\<close>
  "wrap_lines width lines chunks =
     (if chunks = [] \<or> width = 0 then lines
      else (case wrap_step width lines chunks of
              (lines', chunks') \<Rightarrow> wrap_lines width lines' chunks'))"
  by pat_completeness auto
termination
proof (relation "measure (\<lambda>(width, lines, chunks). chunks_size chunks)", goal_cases)
  case 1
  show ?case by simp
next
  case (2 width lines chunks x y)
  then have "chunks_size y < chunks_size chunks"
    using wrap_step_decreases[of chunks width lines x y] by simp
  then show ?case by simp
qed

definition wrap_chunks :: "nat \<Rightarrow> string list \<Rightarrow> exception + string list" where
  \<comment> \<open>\<^verbatim>\<open>_wrap_chunks\<close>: \<^verbatim>\<open>if self.width <= 0: raise ValueError\<close>, then the loop\<close>
  "wrap_chunks width chunks =
     (if width = 0 then Inl ValueError else Inr (wrap_lines width [] chunks))"

definition wrap :: "string \<Rightarrow> nat \<Rightarrow> exception + string list" where
  \<comment> \<open>\<^verbatim>\<open>textwrap.wrap(text, width)\<close>\<close>
  "wrap t width = wrap_chunks width (split_chunks t)"

definition fill :: "string \<Rightarrow> nat \<Rightarrow> exception + string" where
  \<comment> \<open>\<^verbatim>\<open>textwrap.fill(text, width)\<close>: \<^verbatim>\<open>"\n".join(self.wrap(text))\<close>\<close>
  "fill t width = (case wrap t width of Inl x \<Rightarrow> Inl x | Inr lines \<Rightarrow> Inr (join [CHR 0x0A] lines))"

section \<open>The quote text sanitizer\<close>

text \<open>
  \<^verbatim>\<open>re.sub(pattern, repl, text)\<close> scans the text from the left; where the pattern matches
  it writes the replacement and goes on after the match, elsewhere it copies a character.
  Each pattern of \<^verbatim>\<open>clean_quote_text\<close> reads the text from the current position on and
  never matches the empty string, so a pattern is given as the function from the text at
  the current position to the length of its match there, 0 when there is none.
\<close>

fun sub_scan :: "(string \<Rightarrow> nat) \<Rightarrow> string \<Rightarrow> nat \<Rightarrow> string \<Rightarrow> string" where
  \<comment> \<open>the third argument counts the characters still inside the last match\<close>
  "sub_scan pat repl skip [] = []"
| "sub_scan pat repl (Suc skip) (c # cs) = sub_scan pat repl skip cs"
| "sub_scan pat repl 0 (c # cs) =
     (case pat (c # cs) of
        0 \<Rightarrow> c # sub_scan pat repl 0 cs
      | Suc n \<Rightarrow> repl @ sub_scan pat repl n cs)"

definition re_sub :: "(string \<Rightarrow> nat) \<Rightarrow> string \<Rightarrow> string \<Rightarrow> string" where
  "re_sub pat repl t = sub_scan pat repl 0 t"

definition ws_len :: "string \<Rightarrow> nat" where
  \<comment> \<open>\<^verbatim>\<open>\s*\<close>: the whitespace at the head of the text\<close>
  "ws_len t = length (takeWhile isspace t)"

definition tag_len :: "string \<Rightarrow> nat" where
  \<comment> \<open>\<^verbatim>\<open><[^>]+>\<close>\<close>
  "tag_len t =
     (case t of
        [] \<Rightarrow> 0
      | c # rest \<Rightarrow>
          (let body = takeWhile (\<lambda>x. x \<noteq> CHR ''>'') rest
           in if c = CHR ''<'' \<and> body \<noteq> [] \<and> length body < length rest
              then length body + 2 else 0))"

fun hm_len :: "string \<Rightarrow> nat" where
  \<comment> \<open>\<^verbatim>\<open>\d{1,2}:\d{2}\<close>: two digits before the colon are tried first, then one\<close>
  "hm_len (a # b # c # d # e # rest) =
     (if isdigit a \<and> isdigit b \<and> c = CHR '':'' \<and> isdigit d \<and> isdigit e then 5
      else if isdigit a \<and> b = CHR '':'' \<and> isdigit c \<and> isdigit d then 4
      else 0)"
| "hm_len [a, b, c, d] =
     (if isdigit a \<and> b = CHR '':'' \<and> isdigit c \<and> isdigit d then 4 else 0)"
| "hm_len t = 0"

definition hms_stamp_len :: "string \<Rightarrow> nat" where
  \<comment> \<open>\<^verbatim>\<open>\s+\d{1,2}:\d{2}:\d{2}\s+\<close>\<close>
  "hms_stamp_len t =
     (let w1 = ws_len t;
          h = hm_len (drop w1 t);
          u = drop (w1 + h) t;
          w2 = ws_len (drop 3 u)
      in if 0 < w1 \<and> 0 < h \<and>
            (case u of c # d # e # _ \<Rightarrow> c = CHR '':'' \<and> isdigit d \<and> isdigit e | _ \<Rightarrow> False) \<and>
            0 < w2
         then w1 + h + 3 + w2 else 0)"

definition ampm_len :: "string \<Rightarrow> nat" where
  \<comment> \<open>\<^verbatim>\<open>\d{1,2}:\d{2}\s*[AP]M\<close>\<close>
  "ampm_len t =
     (let h = hm_len t;
          w = ws_len (drop h t)
      in if 0 < h \<and>
            (case drop (h + w) t of
               a # m # _ \<Rightarrow> (a = CHR ''A'' \<or> a = CHR ''P'') \<and> m = CHR ''M''
             | _ \<Rightarrow> False)
         then h + w + 2 else 0)"

definition ampm_stamp_len :: "string \<Rightarrow> nat" where
  \<comment> \<open>\<^verbatim>\<open>\s+\d{1,2}:\d{2}\s*[AP]M(?=\s|$)\<close>\<close>
  "ampm_stamp_len t =
     (let w1 = ws_len t;
          n = ampm_len (drop w1 t)
      in if 0 < w1 \<and> 0 < n \<and> (case drop (w1 + n) t of [] \<Rightarrow> True | c # _ \<Rightarrow> isspace c)
         then w1 + n else 0)"

definition strip_leading_stamp :: "string \<Rightarrow> string" where
  \<comment> \<open>\<^verbatim>\<open>re.sub(r'^\s*\d{1,2}:\d{2}\s*[AP]M\s*', '', text)\<close>: the pattern can only match at
      the start of the text\<close>
  "strip_leading_stamp t =
     (let w1 = ws_len t;
          n = ampm_len (drop w1 t)
      in if 0 < n then drop (w1 + n + ws_len (drop (w1 + n) t)) t else t)"

definition clean_quote_text :: "string \<Rightarrow> string" where
  "clean_quote_text quote_text =
     (if quote_text = [] then quote_text
      else
        let t1 = re_sub tag_len '' '' quote_text;
            t2 = re_sub hms_stamp_len '' '' t1;
            t3 = re_sub ampm_stamp_len '' '' t2;
            t4 = strip_leading_stamp t3;
            t5 = re_sub ws_len '' '' t4
        in strip t5)"

section \<open>The typewriter application\<close>

definition LINE_LENGTH :: nat where
  "LINE_LENGTH = 45"

definition FIXED_X_OFFSET :: int where
  "FIXED_X_OFFSET = 150"

definition START_Y_OFFSET :: int where
  "START_Y_OFFSET = 150"

subsection \<open>Decoding keys\<close>

definition lower :: "char \<Rightarrow> char" where
  \<comment> \<open>\<^verbatim>\<open>str.lower()\<close> of one character\<close>
  "lower c = (let n = code c in
     if (65 \<le> n \<and> n \<le> 90) \<or> (192 \<le> n \<and> n \<le> 222 \<and> n \<noteq> 215) then char_of (n + 32) else c)"

definition upper_az :: "char \<Rightarrow> char" where
  \<comment> \<open>\<^verbatim>\<open>str.upper()\<close>, which the decoder applies to the letters a to z only\<close>
  "upper_az c = char_of (code c - 32)"

definition shift_map :: "char \<Rightarrow> char" where
  "shift_map c =
     (if c = CHR ''1'' then CHR ''!'' else if c = CHR ''2'' then CHR ''@''
      else if c = CHR ''3'' then CHR ''#'' else if c = CHR ''4'' then CHR ''$''
      else if c = CHR ''5'' then CHR ''%'' else if c = CHR ''6'' then CHR ''^''
      else if c = CHR ''7'' then CHR ''&'' else if c = CHR ''8'' then CHR ''*''
      else if c = CHR ''9'' then CHR ''('' else CHR '')'')"

definition punct_map :: "bool \<Rightarrow> (string \<times> string) list" where
  "punct_map shift_pressed =
     [(''KEY_SEMICOLON'', if \<not> shift_pressed then '';'' else '':''),
      (''KEY_COMMA'', '',''),
      (''KEY_DOT'', ''.''),
      (''KEY_SLASH'', ''/''),
      (''KEY_APOSTROPHE'', [CHR 0x27]),
      (''KEY_MINUS'', ''-''),
      (''KEY_EQUAL'', ''=''),
      (''KEY_LEFTBRACE'', ''[''),
      (''KEY_RIGHTBRACE'', '']''),
      (''KEY_BACKSLASH'', [CHR 0x5C])]"

definition evdev_key_to_char :: "bool \<Rightarrow> string \<Rightarrow> string option" where
  \<comment> \<open>\<^verbatim>\<open>_evdev_key_to_char\<close>; the first argument is \<^verbatim>\<open>self.shift_pressed\<close>\<close>
  "evdev_key_to_char shift_pressed keycode =
     (if keycode = ''KEY_SPACE'' then Some ''space''
      else if keycode = ''KEY_BACKSPACE'' then Some ''backspace''
      else if keycode = ''KEY_ENTER'' then Some ''enter''
      else if startswith keycode ''KEY_'' \<and> length keycode = 5 \<and>
              97 \<le> code (lower (keycode ! 4)) \<and> code (lower (keycode ! 4)) \<le> 122
        then Some [if shift_pressed then upper_az (lower (keycode ! 4)) else lower (keycode ! 4)]
      else if startswith keycode ''KEY_'' \<and> length keycode = 5 \<and>
              48 \<le> code (keycode ! 4) \<and> code (keycode ! 4) \<le> 57
        then Some [if shift_pressed then shift_map (keycode ! 4) else keycode ! 4]
      else map_of (punct_map shift_pressed) keycode)"

subsection \<open>State\<close>

datatype mode = Clock | Typewriter

datatype frame =
    Page "int \<times> int" string  \<comment> \<open>typewriter page: draw point and wrapped text\<close>
  | Quotes string  \<comment> \<open>clock page: the combined wrapped quotes\<close>

datatype handoff = Shown | Busy

text \<open>
  The fields of \<^verbatim>\<open>TypewriterApp\<close> that the event handlers read and write. \<open>display\<close> stands
  for \<^verbatim>\<open>self.display\<close>: the frames handed to the panel by \<^verbatim>\<open>display_image_8bpp_memory\<close>, in
  order, each with whether the panel took it or the hand-off raised \<^verbatim>\<open>TimeoutError\<close>. The
  vertical position of the clock page depends on the font's metrics and is left out of
  its frame, as is the console output.
\<close>

record app =
  mode :: mode
  command_buffer :: string
  typed_text :: string  \<comment> \<open>\<^verbatim>\<open>self.text\<close>\<close>
  y_offset :: int
  clock_quotes :: "string list"
  display :: "(frame \<times> handoff) list"

text \<open>
  What an event handler gets from outside the program: the wall clock, the quote data's
  answer (the \<^verbatim>\<open>'quote'\<close> text of \<^verbatim>\<open>clock_data.get_quote(hour, minute)\<close>, its random choice
  made), and whether the panel is busy when the frame is handed over.
\<close>

record env =
  now :: "nat \<times> nat"
  get_quote :: "nat \<Rightarrow> nat \<Rightarrow> string option"
  display_busy :: bool

definition init :: app where
  \<comment> \<open>\<^verbatim>\<open>TypewriterApp.__init__\<close>\<close>
  "init = \<lparr>mode = Clock, command_buffer = [], typed_text = [], y_offset = START_Y_OFFSET,
           clock_quotes = [], display = []\<rparr>"

subsection \<open>Rendering\<close>

definition scroll :: "nat \<Rightarrow> int" where
  \<comment> \<open>\<^verbatim>\<open>math.floor(len(self.text)*0.00700)\<close>. The double nearest to 0.007 exceeds 7/1000 by
      less than \<open>2 * 10^-19\<close>, and the rounded product floors to \<open>7 * n div 1000\<close> for every
      length below \<open>10^12\<close>.\<close>
  "scroll n = (7 * int n) div 1000"

definition display_image :: "env \<Rightarrow> frame \<Rightarrow> app \<Rightarrow> exception option \<times> app" where
  \<comment> \<open>\<^verbatim>\<open>display_image_8bpp_memory(self.display, buf)\<close>; a failure of \<^verbatim>\<open>wait_display_ready\<close>
      before it is swallowed by the renderers\<close>
  "display_image e f s =
     (if display_busy e then (Some TimeoutError, s\<lparr>display := display s @ [(f, Busy)]\<rparr>)
      else (None, s\<lparr>display := display s @ [(f, Shown)]\<rparr>))"

definition render_typewriter :: "env \<Rightarrow> app \<Rightarrow> exception option \<times> app" where
  \<comment> \<open>\<^verbatim>\<open>_render_typewriter\<close>: the offset is written before the frame is handed over\<close>
  "render_typewriter e s =
     (case fill (typed_text s) LINE_LENGTH of
        Inl x \<Rightarrow> (Some x, s)
      | Inr lines \<Rightarrow>
          (let s1 = s\<lparr>y_offset := y_offset s - scroll (length (typed_text s))\<rparr>;
               draw_point = (FIXED_X_OFFSET, y_offset s1)
           in display_image e (Page draw_point lines) s1))"

fun fill_all :: "string list \<Rightarrow> exception + string list" where
  \<comment> \<open>the loop of \<^verbatim>\<open>_render_clock_display\<close> that wraps each quote\<close>
  "fill_all [] = Inr []"
| "fill_all (quote # quotes) =
     (case fill quote LINE_LENGTH of
        Inl x \<Rightarrow> Inl x
      | Inr wrapped \<Rightarrow>
          (case fill_all quotes of Inl x \<Rightarrow> Inl x | Inr all_quotes \<Rightarrow> Inr (wrapped # all_quotes)))"

definition render_clock_display :: "env \<Rightarrow> app \<Rightarrow> exception option \<times> app" where
  \<comment> \<open>\<^verbatim>\<open>_render_clock_display\<close>\<close>
  "render_clock_display e s =
     (case fill_all (clock_quotes s) of
        Inl x \<Rightarrow> (Some x, s)
      | Inr all_quotes \<Rightarrow>
          (let combined_text = join [CHR 0x0A, CHR 0x0A, CHR 0x0A] all_quotes
           in display_image e (Quotes combined_text) s))"

subsection \<open>Clock mode\<close>

fun str_nat :: "nat \<Rightarrow> string" where
  "str_nat n = (if n < 10 then [char_of (48 + n)] else str_nat (n div 10) @ [char_of (48 + n mod 10)])"

definition fmt02d :: "nat \<Rightarrow> string" where
  \<comment> \<open>the format \<^verbatim>\<open>:02d\<close>\<close>
  "fmt02d n = (if n < 10 then CHR ''0'' # str_nat n else str_nat n)"

definition display_text :: "env \<Rightarrow> nat \<times> nat \<Rightarrow> string" where
  \<comment> \<open>the text \<^verbatim>\<open>_update_clock_display\<close> shows for a time\<close>
  "display_text e t =
     (case t of (hour, minute) \<Rightarrow>
        (case get_quote e hour minute of
           None \<Rightarrow> ''No quote found for '' @ fmt02d hour @ '':'' @ fmt02d minute
         | Some quote \<Rightarrow> clean_quote_text quote))"

definition update_clock_display :: "env \<Rightarrow> nat \<times> nat \<Rightarrow> app \<Rightarrow> exception option \<times> app" where
  \<comment> \<open>\<^verbatim>\<open>_update_clock_display\<close>: append, pop the oldest above 15, render; a \<^verbatim>\<open>TimeoutError\<close>
      of the render is caught here\<close>
  "update_clock_display e current_time s =
     (let quotes = clock_quotes s @ [display_text e current_time];
          s1 = s\<lparr>clock_quotes := (if 15 < length quotes then tl quotes else quotes)\<rparr>
      in case render_clock_display e s1 of
           (Some TimeoutError, s2) \<Rightarrow> (None, s2)
         | r \<Rightarrow> r)"

definition enter_clock_mode :: "env \<Rightarrow> app \<Rightarrow> exception option \<times> app" where
  \<comment> \<open>\<^verbatim>\<open>_enter_clock_mode\<close>\<close>
  "enter_clock_mode e s =
     update_clock_display e (now e) (s\<lparr>mode := Clock, clock_quotes := []\<rparr>)"

subsection \<open>Typewriter mode\<close>

definition process_typewriter_key :: "env \<Rightarrow> string \<Rightarrow> app \<Rightarrow> exception option \<times> app" where
  \<comment> \<open>\<^verbatim>\<open>_process_typewriter_key\<close>: the \<^verbatim>\<open>match\<close> on the key, then the render; a
      \<^verbatim>\<open>TimeoutError\<close> of the render is caught here\<close>
  "process_typewriter_key e key s =
     (let s1 = s\<lparr>typed_text :=
                  (if key = ''space'' then typed_text s @ '' ''
                   else if key = ''backspace'' then butlast (typed_text s)
                   else if key = ''enter'' then typed_text s @ [CHR '' '', CHR 0x0A, CHR '' '']
                   else typed_text s @ key)\<rparr>
      in case render_typewriter e s1 of
           (Some TimeoutError, s2) \<Rightarrow> (None, s2)
         | r \<Rightarrow> r)"

definition keep_last :: "nat \<Rightarrow> string \<Rightarrow> string" where
  \<comment> \<open>\<^verbatim>\<open>if len(buf) > n: buf = buf[-n:]\<close>\<close>
  "keep_last n buf = (if n < length buf then drop (length buf - n) buf else buf)"

definition handle_keystroke :: "env \<Rightarrow> string \<Rightarrow> app \<Rightarrow> exception option \<times> app" where
  \<comment> \<open>\<^verbatim>\<open>_handle_keystroke\<close>\<close>
  "handle_keystroke e key s =
     (if mode s = Clock then
        (None, s\<lparr>mode := Typewriter, typed_text := [], y_offset := START_Y_OFFSET\<rparr>)
      else
        let s1 = s\<lparr>command_buffer := keep_last 6 (command_buffer s @ key)\<rparr>
        in if endswith (command_buffer s1) '';clock''
           then (case enter_clock_mode e s1 of
                   (None, s2) \<Rightarrow> (None, s2\<lparr>command_buffer := []\<rparr>)
                 | r \<Rightarrow> r)
           else process_typewriter_key e key s1)"

subsection \<open>The event loop\<close>

datatype event = Key string | ClockUpdate nat nat

definition handle_event :: "env \<Rightarrow> event \<Rightarrow> app \<Rightarrow> exception option \<times> app" where
  \<comment> \<open>the dispatch in \<^verbatim>\<open>run\<close>\<close>
  "handle_event e ev s =
     (case ev of
        Key data \<Rightarrow> handle_keystroke e data s
      | ClockUpdate hour minute \<Rightarrow> update_clock_display e (hour, minute) s)"

fun run_events :: "(env \<times> event) list \<Rightarrow> app \<Rightarrow> exception option \<times> app" where
  \<comment> \<open>the loop of \<^verbatim>\<open>run\<close> over the queued events, each met with its own surroundings; an
      exception that no handler catches ends the loop\<close>
  "run_events [] s = (None, s)"
| "run_events ((e, ev) # rest) s =
     (case handle_event e ev s of
        (None, s') \<Rightarrow> run_events rest s'
      | r \<Rightarrow> r)"

definition startup :: "env \<Rightarrow> exception option \<times> app" where
  \<comment> \<open>\<^verbatim>\<open>run\<close> before its loop: the first quote is shown\<close>
  "startup e = update_clock_display e (now e) init"

inductive reachable :: "app \<Rightarrow> bool" where
  \<comment> \<open>the states in which the loop of \<^verbatim>\<open>run\<close> takes an event\<close>
  start: "startup e = (None, s) \<Longrightarrow> reachable s"
| step: "reachable s \<Longrightarrow> handle_event e ev s = (None, s') \<Longrightarrow> reachable s'"

section \<open>What the handlers compute\<close>

text \<open>
  At the program's width \<^verbatim>\<open>textwrap\<close> never raises, so no handler lets an exception escape,
  and each handler has a closed form. \<open>filled\<close>, \<open>outcome\<close>, \<open>push_quote\<close> and \<open>typed\<close> name
  the pieces of these closed forms.
\<close>

definition filled :: "string \<Rightarrow> string" where
  "filled t = join [CHR 0x0A] (wrap_lines LINE_LENGTH [] (split_chunks t))"

definition outcome :: "env \<Rightarrow> handoff" where
  "outcome e = (if display_busy e then Busy else Shown)"

definition push_quote :: "string \<Rightarrow> string list \<Rightarrow> string list" where
  "push_quote q quotes = (if 15 < length (quotes @ [q]) then tl (quotes @ [q]) else quotes @ [q])"

lemma fill_filled: "fill t LINE_LENGTH = Inr (filled t)"
  by (simp add: fill_def wrap_def wrap_chunks_def filled_def LINE_LENGTH_def)

lemma fill_all_filled: "fill_all quotes = Inr (map filled quotes)"
  by (induction quotes) (simp_all add: fill_filled)

lemma render_typewriter_eq:
  "render_typewriter e s =
     (if display_busy e then Some TimeoutError else None,
      s\<lparr>y_offset := y_offset s - scroll (length (typed_text s)),
        display := display s @
          [(Page (FIXED_X_OFFSET, y_offset s - scroll (length (typed_text s))) (filled (typed_text s)),
            outcome e)]\<rparr>)"
  by (simp add: render_typewriter_def fill_filled display_image_def outcome_def Let_def)

lemma render_clock_display_eq:
  "render_clock_display e s =
     (if display_busy e then Some TimeoutError else None,
      s\<lparr>display := display s @
          [(Quotes (join [CHR 0x0A, CHR 0x0A, CHR 0x0A] (map filled (clock_quotes s))), outcome e)]\<rparr>)"
  by (simp add: render_clock_display_def fill_all_filled display_image_def outcome_def Let_def)

lemma update_clock_display_eq:
  "update_clock_display e t s =
     (None,
      s\<lparr>clock_quotes := push_quote (display_text e t) (clock_quotes s),
        display := display s @
          [(Quotes (join [CHR 0x0A, CHR 0x0A, CHR 0x0A]
              (map filled (push_quote (display_text e t) (clock_quotes s)))), outcome e)]\<rparr>)"
  by (simp add: update_clock_display_def render_clock_display_eq push_quote_def Let_def)

definition typed :: "string \<Rightarrow> string \<Rightarrow> string" where
  "typed key t =
     (if key = ''space'' then t @ '' ''
      else if key = ''backspace'' then butlast t
      else if key = ''enter'' then t @ [CHR '' '', CHR 0x0A, CHR '' '']
      else t @ key)"

lemma process_typewriter_key_eq:
  "process_typewriter_key e key s =
     (None,
      s\<lparr>typed_text := typed key (typed_text s),
        y_offset := y_offset s - scroll (length (typed key (typed_text s))),
        display := display s @
          [(Page (FIXED_X_OFFSET, y_offset s - scroll (length (typed key (typed_text s))))
              (filled (typed key (typed_text s))), outcome e)]\<rparr>)"
  by (simp add: process_typewriter_key_def render_typewriter_eq typed_def Let_def)

lemma enter_clock_mode_eq:
  "enter_clock_mode e s =
     (None,
      s\<lparr>mode := Clock, clock_quotes := [display_text e (now e)],
        display := display s @ [(Quotes (filled (display_text e (now e))), outcome e)]\<rparr>)"
  by (simp add: enter_clock_mode_def update_clock_display_eq push_quote_def)

lemma handle_keystroke_eq:
  "handle_keystroke e key s =
     (None,
      if mode s = Clock then s\<lparr>mode := Typewriter, typed_text := [], y_offset := START_Y_OFFSET\<rparr>
      else if endswith (keep_last 6 (command_buffer s @ key)) '';clock'' then
        s\<lparr>mode := Clock, command_buffer := [], clock_quotes := [display_text e (now e)],
          display := display s @ [(Quotes (filled (display_text e (now e))), outcome e)]\<rparr>
      else
        s\<lparr>command_buffer := keep_last 6 (command_buffer s @ key),
          typed_text := typed key (typed_text s),
          y_offset := y_offset s - scroll (length (typed key (typed_text s))),
          display := display s @
            [(Page (FIXED_X_OFFSET, y_offset s - scroll (length (typed key (typed_text s))))
                (filled (typed key (typed_text s))), outcome e)]\<rparr>)"
  by (simp add: handle_keystroke_def enter_clock_mode_eq process_typewriter_key_eq Let_def)

lemma handle_event_returns: "fst (handle_event e ev s) = None"
  by (cases ev) (simp_all add: handle_event_def handle_keystroke_eq update_clock_display_eq)

lemma keep_last_length: "length (keep_last n buf) \<le> n"
  by (simp add: keep_last_def)

lemma endswith_full: "length s \<le> length suffix \<Longrightarrow> endswith s suffix = (s = suffix)"
  by (auto simp: endswith_def)

lemma reachable_inv:
  "reachable s \<Longrightarrow>
     (mode s = Clock \<longrightarrow> command_buffer s = []) \<and> length (clock_quotes s) \<le> 15 \<and>
     length (command_buffer s) \<le> 6"
proof (induction rule: reachable.induct)
  case (start e s)
  then show ?case
    by (auto simp: startup_def update_clock_display_eq init_def push_quote_def)
next
  case (step s e ev s')
  show ?case
  proof (cases ev)
    case (Key k)
    with step show ?thesis
      by (auto simp: handle_event_def handle_keystroke_eq keep_last_length split: if_splits)
  next
    case (ClockUpdate h m)
    with step show ?thesis
      by (auto simp: handle_event_def update_clock_display_eq push_quote_def)
  qed
qed

section \<open>The sanitizer is not idempotent\<close>

text \<open>
  C4. The claim: \<^verbatim>\<open>clean_quote_text(clean_quote_text(x)) == clean_quote_text(x)\<close> for every
  string. Two time stamps with seconds in a row, each alone after a line break tag, break
  it. The pattern for them consumes the whitespace after a stamp, so the next stamp has no
  whitespace left before it and stays, although it stands alone; a second application
  then removes it. (The pattern for AM/PM stamps looks ahead for that whitespace instead
  and has no such gap.)
\<close>

theorem clean_quote_text_twice_differs:
  "clean_quote_text ''Midnight.<br>00:00:00<br>00:00:01<br>Then'' = ''Midnight. 00:00:01 Then'' \<and>
   clean_quote_text (clean_quote_text ''Midnight.<br>00:00:00<br>00:00:01<br>Then'') =
     ''Midnight. Then''"
  by code_simp

section \<open>A first run\<close>

text \<open>
  Surroundings in which the quote data has no quote, it is noon and the panel is free, and
  the state in which the event loop then starts.
\<close>

definition quiet_env :: env where
  "quiet_env = \<lparr>now = (12, 0), get_quote = (\<lambda>hour minute. None), display_busy = False\<rparr>"

definition first_state :: app where
  "first_state =
     \<lparr>mode = Clock, command_buffer = [], typed_text = [], y_offset = 150,
      clock_quotes = [''No quote found for 12:00''],
      display = [(Quotes ''No quote found for 12:00'', Shown)]\<rparr>"

lemma filled_placeholder: "filled ''No quote found for 12:00'' = ''No quote found for 12:00''"
  by code_simp

lemma display_text_quiet: "display_text quiet_env (12, 0) = ''No quote found for 12:00''"
  by code_simp

lemma quiet_env_fields: "now quiet_env = (12, 0)" "display_busy quiet_env = False"
  by (simp_all add: quiet_env_def)

lemma startup_quiet: "startup quiet_env = (None, first_state)"
  by (simp add: startup_def update_clock_display_eq init_def push_quote_def outcome_def
      first_state_def START_Y_OFFSET_def filled_placeholder display_text_quiet quiet_env_fields)

lemma reachable_first_state: "reachable first_state"
  using startup_quiet by (rule reachable.start)

section \<open>Leaving clock mode\<close>

text \<open>
  C1. A key event received in Clock mode switches to Typewriter mode, leaves TypedText
  empty, VerticalOffset at its start value and CommandBuffer empty, and inserts no
  character for the key; nothing is rendered. The handler itself does not write
  CommandBuffer: the buffer is empty in every state the event loop reaches in Clock mode
  (it starts empty, and is emptied when the command enters Clock mode), so it is empty
  after the switch.
\<close>

theorem clock_key_enters_typewriter:
  assumes "reachable s" and "mode s = Clock"
  shows "fst (handle_keystroke e key s) = None \<and>
         mode (snd (handle_keystroke e key s)) = Typewriter \<and>
         typed_text (snd (handle_keystroke e key s)) = [] \<and>
         y_offset (snd (handle_keystroke e key s)) = START_Y_OFFSET \<and>
         command_buffer (snd (handle_keystroke e key s)) = [] \<and>
         clock_quotes (snd (handle_keystroke e key s)) = clock_quotes s \<and>
         display (snd (handle_keystroke e key s)) = display s"
proof -
  from reachable_inv[OF assms(1)] assms(2) have "command_buffer s = []" by simp
  with assms(2) show ?thesis by (simp add: handle_keystroke_eq)
qed

theorem clock_key_enters_typewriter_witness:
  "mode first_state = Clock \<and>
   snd (handle_keystroke quiet_env ''a'' first_state) =
     \<lparr>mode = Typewriter, command_buffer = [], typed_text = [], y_offset = 150,
      clock_quotes = [''No quote found for 12:00''],
      display = [(Quotes ''No quote found for 12:00'', Shown)]\<rparr>"
proof -
  have m: "mode first_state = Clock" by (simp add: first_state_def)
  from clock_key_enters_typewriter[OF reachable_first_state m, of quiet_env "''a''"]
  show ?thesis
    by (simp add: first_state_def handle_keystroke_eq START_Y_OFFSET_def)
qed

section \<open>The clock command\<close>

definition typing :: "string \<Rightarrow> app" where
  \<comment> \<open>an example: Typewriter mode with the given characters typed on a fresh page\<close>
  "typing t =
     \<lparr>mode = Typewriter, command_buffer = keep_last 6 t, typed_text = t, y_offset = 150,
      clock_quotes = [''No quote found for 12:00''], display = []\<rparr>"

lemma keep_last_clock: "endswith (keep_last 6 b) '';clock'' = (keep_last 6 b = '';clock'')"
proof (rule endswith_full)
  show "length (keep_last 6 b) \<le> length '';clock''"
    using keep_last_length[of 6 b] by simp
qed

lemma mode_not_Clock: "(m \<noteq> Clock) = (m = Typewriter)"
  by (cases m) simp_all

lemma keep_last_short: "length b < 6 \<Longrightarrow> \<not> endswith (keep_last 6 b) '';clock''"
  by (simp add: keep_last_def endswith_def)

text \<open>
  C2. In Typewriter mode a keystroke fires the command (the mode becomes Clock) exactly
  when CommandBuffer, with the key appended and trimmed to its last six characters, ends
  with \<^verbatim>\<open>;clock\<close>, which is when it equals \<^verbatim>\<open>;clock\<close>; fewer than six characters never
  match; \<^verbatim>\<open>;;clock\<close> matches, \<^verbatim>\<open>clockX\<close> and \<^verbatim>\<open>;CLOCK\<close> do not.
\<close>

theorem clock_command_fires_iff:
  assumes "mode s = Typewriter"
  shows "((mode (snd (handle_keystroke e key s)) = Clock) =
            endswith (keep_last 6 (command_buffer s @ key)) '';clock'') \<and>
         (endswith (keep_last 6 (command_buffer s @ key)) '';clock'' =
            (keep_last 6 (command_buffer s @ key) = '';clock'')) \<and>
         (length (command_buffer s @ key) < 6 \<longrightarrow>
            mode (snd (handle_keystroke e key s)) = Typewriter) \<and>
         endswith (keep_last 6 '';;clock'') '';clock'' \<and>
         \<not> endswith (keep_last 6 ''clockX'') '';clock'' \<and>
         \<not> endswith (keep_last 6 '';CLOCK'') '';clock''"
proof -
  have fires: "(mode (snd (handle_keystroke e key s)) = Clock) =
      endswith (keep_last 6 (command_buffer s @ key)) '';clock''"
    using assms by (simp add: handle_keystroke_eq)
  have short: "length (command_buffer s @ key) < 6 \<longrightarrow>
      mode (snd (handle_keystroke e key s)) = Typewriter"
    using assms keep_last_short[of "command_buffer s @ key"] by (simp add: handle_keystroke_eq)
  have ex: "endswith (keep_last 6 '';;clock'') '';clock''"
    "\<not> endswith (keep_last 6 ''clockX'') '';clock''"
    "\<not> endswith (keep_last 6 '';CLOCK'') '';clock''"
    by (simp_all add: keep_last_def endswith_def)
  from fires short ex keep_last_clock[of "command_buffer s @ key"] show ?thesis by blast
qed

theorem clock_command_fires_iff_witness:
  "mode (snd (handle_keystroke quiet_env ''k'' (typing '';;cloc''))) = Clock \<and>
   mode (snd (handle_keystroke quiet_env ''X'' (typing ''clock''))) = Typewriter \<and>
   mode (snd (handle_keystroke quiet_env ''k'' (typing '';clo''))) = Typewriter \<and>
   length (command_buffer (typing '';clo'') @ ''k'') < 6"
proof -
  have m: "mode (typing '';;cloc'') = Typewriter" "mode (typing ''clock'') = Typewriter"
    "mode (typing '';clo'') = Typewriter"
    by (simp_all add: typing_def)
  have b: "command_buffer (typing '';;cloc'') = '';;cloc''" "command_buffer (typing ''clock'') = ''clock''"
    "command_buffer (typing '';clo'') = '';clo''"
    by (simp_all add: typing_def keep_last_def)
  from clock_command_fires_iff[OF m(1), of quiet_env "''k''"]
       clock_command_fires_iff[OF m(2), of quiet_env "''X''"]
       clock_command_fires_iff[OF m(3), of quiet_env "''k''"]
  show ?thesis
    by (simp add: b keep_last_def endswith_def mode_not_Clock)
qed

lemma run_events_Cons: "run_events ((e, ev) # rest) s = run_events rest (snd (handle_event e ev s))"
  using handle_event_returns[of e ev s] by (cases "handle_event e ev s") simp

lemma plain_key:
  assumes "mode s = Typewriter" and "command_buffer s = b"
    and "\<not> endswith (keep_last 6 (b @ key)) '';clock''"
  shows "mode (snd (handle_event e (Key key) s)) = Typewriter"
    and "command_buffer (snd (handle_event e (Key key) s)) = keep_last 6 (b @ key)"
    and "typed_text (snd (handle_event e (Key key) s)) = typed key (typed_text s)"
    and "y_offset (snd (handle_event e (Key key) s)) =
           y_offset s - scroll (length (typed key (typed_text s)))"
    and "clock_quotes (snd (handle_event e (Key key) s)) = clock_quotes s"
  using assms by (simp_all add: handle_event_def handle_keystroke_eq)

definition news_env :: env where
  \<comment> \<open>an example: five past nine, the quote data has a quote for that minute, the panel is
      free\<close>
  "news_env =
     \<lparr>now = (9, 5),
      get_quote = (\<lambda>hour minute.
        if hour = 9 \<and> minute = 5 then Some ''<br>It was <i>five past nine.</i><br>09:05:00<br>''
        else None),
      display_busy = False\<rparr>"

text \<open>
  C3. When the trimmed CommandBuffer ends with \<^verbatim>\<open>;clock\<close> in Typewriter mode, the handler
  switches to Clock mode, replaces QuoteHistory by one entry, empties CommandBuffer, and
  hands exactly one frame to the display, the clock page with that entry wrapped;
  TypedText and the offset are left as they were and no typewriter page is rendered. The
  entry is what the quote data returns for the hour and minute of the wall clock, cleaned
  by the sanitizer, or the placeholder with that time when the data has no quote. Typing
  \<^verbatim>\<open>hi;clock\<close> in Typewriter mode with an empty CommandBuffer ends in Clock mode with
  that single entry and an empty CommandBuffer.
\<close>

theorem clock_command_enters_clock_mode:
  assumes "mode s = Typewriter"
  shows "(endswith (keep_last 6 (command_buffer s @ key)) '';clock'' \<longrightarrow>
            handle_keystroke e key s =
              (None, s\<lparr>mode := Clock, command_buffer := [],
                        clock_quotes := [display_text e (now e)],
                        display := display s @
                          [(Quotes (filled (display_text e (now e))), outcome e)]\<rparr>)) \<and>
         (endswith (keep_last 6 (command_buffer s @ key)) '';clock'' \<longrightarrow>
            (case get_quote e (fst (now e)) (snd (now e)) of
               Some quote \<Rightarrow>
                 clock_quotes (snd (handle_keystroke e key s)) = [clean_quote_text quote]
             | None \<Rightarrow>
                 clock_quotes (snd (handle_keystroke e key s)) =
                   [''No quote found for '' @ fmt02d (fst (now e)) @ '':'' @ fmt02d (snd (now e))])) \<and>
         display_text e (now e) =
           (case get_quote e (fst (now e)) (snd (now e)) of
              Some quote \<Rightarrow> clean_quote_text quote
            | None \<Rightarrow> ''No quote found for '' @ fmt02d (fst (now e)) @ '':'' @ fmt02d (snd (now e))) \<and>
         fill (display_text e (now e)) LINE_LENGTH = Inr (filled (display_text e (now e))) \<and>
         outcome e = (if display_busy e then Busy else Shown) \<and>
         (command_buffer s = [] \<longrightarrow>
            fst (run_events (zip [e1, e2, e3, e4, e5, e6, e7, e8]
                   (map Key [''h'', ''i'', '';'', ''c'', ''l'', ''o'', ''c'', ''k''])) s) = None \<and>
            mode (snd (run_events (zip [e1, e2, e3, e4, e5, e6, e7, e8]
                   (map Key [''h'', ''i'', '';'', ''c'', ''l'', ''o'', ''c'', ''k''])) s)) = Clock \<and>
            clock_quotes (snd (run_events (zip [e1, e2, e3, e4, e5, e6, e7, e8]
                   (map Key [''h'', ''i'', '';'', ''c'', ''l'', ''o'', ''c'', ''k''])) s)) =
              [case get_quote e8 (fst (now e8)) (snd (now e8)) of
                 Some quote \<Rightarrow> clean_quote_text quote
               | None \<Rightarrow>
                   ''No quote found for '' @ fmt02d (fst (now e8)) @ '':'' @ fmt02d (snd (now e8))] \<and>
            command_buffer (snd (run_events (zip [e1, e2, e3, e4, e5, e6, e7, e8]
                   (map Key [''h'', ''i'', '';'', ''c'', ''l'', ''o'', ''c'', ''k''])) s)) = [])"
proof -
  have dt: "display_text e' (now e') =
      (case get_quote e' (fst (now e')) (snd (now e')) of
         Some quote \<Rightarrow> clean_quote_text quote
       | None \<Rightarrow> ''No quote found for '' @ fmt02d (fst (now e')) @ '':'' @ fmt02d (snd (now e')))"
    for e'
    by (cases "now e'") (simp add: display_text_def split: option.splits)
  have fire: "endswith (keep_last 6 (command_buffer s @ key)) '';clock'' \<Longrightarrow>
      handle_keystroke e key s =
        (None, s\<lparr>mode := Clock, command_buffer := [],
                  clock_quotes := [display_text e (now e)],
                  display := display s @
                    [(Quotes (filled (display_text e (now e))), outcome e)]\<rparr>)"
    using assms by (simp add: handle_keystroke_eq)
  have entry: "endswith (keep_last 6 (command_buffer s @ key)) '';clock'' \<longrightarrow>
      (case get_quote e (fst (now e)) (snd (now e)) of
         Some quote \<Rightarrow>
           clock_quotes (snd (handle_keystroke e key s)) = [clean_quote_text quote]
       | None \<Rightarrow>
           clock_quotes (snd (handle_keystroke e key s)) =
             [''No quote found for '' @ fmt02d (fst (now e)) @ '':'' @ fmt02d (snd (now e))])"
  proof
    assume "endswith (keep_last 6 (command_buffer s @ key)) '';clock''"
    from fire[OF this] have "clock_quotes (snd (handle_keystroke e key s)) = [display_text e (now e)]"
      by simp
    then show "case get_quote e (fst (now e)) (snd (now e)) of
         Some quote \<Rightarrow>
           clock_quotes (snd (handle_keystroke e key s)) = [clean_quote_text quote]
       | None \<Rightarrow>
           clock_quotes (snd (handle_keystroke e key s)) =
             [''No quote found for '' @ fmt02d (fst (now e)) @ '':'' @ fmt02d (snd (now e))]"
      by (simp add: dt split: option.splits)
  qed
  have scenario: "command_buffer s = [] \<longrightarrow>
            fst (run_events (zip [e1, e2, e3, e4, e5, e6, e7, e8]
                   (map Key [''h'', ''i'', '';'', ''c'', ''l'', ''o'', ''c'', ''k''])) s) = None \<and>
            mode (snd (run_events (zip [e1, e2, e3, e4, e5, e6, e7, e8]
                   (map Key [''h'', ''i'', '';'', ''c'', ''l'', ''o'', ''c'', ''k''])) s)) = Clock \<and>
            clock_quotes (snd (run_events (zip [e1, e2, e3, e4, e5, e6, e7, e8]
                   (map Key [''h'', ''i'', '';'', ''c'', ''l'', ''o'', ''c'', ''k''])) s)) =
              [case get_quote e8 (fst (now e8)) (snd (now e8)) of
                 Some quote \<Rightarrow> clean_quote_text quote
               | None \<Rightarrow>
                   ''No quote found for '' @ fmt02d (fst (now e8)) @ '':'' @ fmt02d (snd (now e8))] \<and>
            command_buffer (snd (run_events (zip [e1, e2, e3, e4, e5, e6, e7, e8]
                   (map Key [''h'', ''i'', '';'', ''c'', ''l'', ''o'', ''c'', ''k''])) s)) = []"
  proof
    assume empty: "command_buffer s = []"
    define s1 where "s1 = snd (handle_event e1 (Key ''h'') s)"
    define s2 where "s2 = snd (handle_event e2 (Key ''i'') s1)"
    define s3 where "s3 = snd (handle_event e3 (Key '';'') s2)"
    define s4 where "s4 = snd (handle_event e4 (Key ''c'') s3)"
    define s5 where "s5 = snd (handle_event e5 (Key ''l'') s4)"
    define s6 where "s6 = snd (handle_event e6 (Key ''o'') s5)"
    define s7 where "s7 = snd (handle_event e7 (Key ''c'') s6)"
    have 1: "mode s1 = Typewriter" "command_buffer s1 = ''h''"
      unfolding s1_def using plain_key(1,2)[OF assms empty, of "''h''" e1]
      by (simp_all add: keep_last_def endswith_def)
    have 2: "mode s2 = Typewriter" "command_buffer s2 = ''hi''"
      unfolding s2_def using plain_key(1,2)[OF 1, of "''i''" e2]
      by (simp_all add: keep_last_def endswith_def)
    have 3: "mode s3 = Typewriter" "command_buffer s3 = ''hi;''"
      unfolding s3_def using plain_key(1,2)[OF 2, of "'';''" e3]
      by (simp_all add: keep_last_def endswith_def)
    have 4: "mode s4 = Typewriter" "command_buffer s4 = ''hi;c''"
      unfolding s4_def using plain_key(1,2)[OF 3, of "''c''" e4]
      by (simp_all add: keep_last_def endswith_def)
    have 5: "mode s5 = Typewriter" "command_buffer s5 = ''hi;cl''"
      unfolding s5_def using plain_key(1,2)[OF 4, of "''l''" e5]
      by (simp_all add: keep_last_def endswith_def)
    have 6: "mode s6 = Typewriter" "command_buffer s6 = ''hi;clo''"
      unfolding s6_def using plain_key(1,2)[OF 5, of "''o''" e6]
      by (simp_all add: keep_last_def endswith_def)
    have 7: "mode s7 = Typewriter" "command_buffer s7 = ''i;cloc''"
      unfolding s7_def using plain_key(1,2)[OF 6, of "''c''" e7]
      by (simp_all add: keep_last_def endswith_def)
    have run: "run_events (zip [e1, e2, e3, e4, e5, e6, e7, e8]
                     (map Key [''h'', ''i'', '';'', ''c'', ''l'', ''o'', ''c'', ''k''])) s =
               (None, snd (handle_keystroke e8 ''k'' s7))"
      by (simp del: run_events.simps(2)
          add: run_events_Cons s1_def s2_def s3_def s4_def s5_def s6_def s7_def handle_event_def)
    have last: "handle_keystroke e8 ''k'' s7 =
        (None, s7\<lparr>mode := Clock, command_buffer := [],
                  clock_quotes := [display_text e8 (now e8)],
                  display := display s7 @
                    [(Quotes (filled (display_text e8 (now e8))), outcome e8)]\<rparr>)"
      using 7 by (simp add: handle_keystroke_eq keep_last_def endswith_def)
    show "fst (run_events (zip [e1, e2, e3, e4, e5, e6, e7, e8]
                   (map Key [''h'', ''i'', '';'', ''c'', ''l'', ''o'', ''c'', ''k''])) s) = None \<and>
            mode (snd (run_events (zip [e1, e2, e3, e4, e5, e6, e7, e8]
                   (map Key [''h'', ''i'', '';'', ''c'', ''l'', ''o'', ''c'', ''k''])) s)) = Clock \<and>
            clock_quotes (snd (run_events (zip [e1, e2, e3, e4, e5, e6, e7, e8]
                   (map Key [''h'', ''i'', '';'', ''c'', ''l'', ''o'', ''c'', ''k''])) s)) =
              [case get_quote e8 (fst (now e8)) (snd (now e8)) of
                 Some quote \<Rightarrow> clean_quote_text quote
               | None \<Rightarrow>
                   ''No quote found for '' @ fmt02d (fst (now e8)) @ '':'' @ fmt02d (snd (now e8))] \<and>
            command_buffer (snd (run_events (zip [e1, e2, e3, e4, e5, e6, e7, e8]
                   (map Key [''h'', ''i'', '';'', ''c'', ''l'', ''o'', ''c'', ''k''])) s)) = []"
      unfolding run last by (simp add: dt)
  qed
  have f: "fill (display_text e (now e)) LINE_LENGTH = Inr (filled (display_text e (now e)))"
    by (rule fill_filled)
  have oc: "outcome e = (if display_busy e then Busy else Shown)"
    by (simp add: outcome_def)
  from fire entry dt[of e] f oc scenario show ?thesis by blast
qed

theorem clock_command_enters_clock_mode_witness:
  "handle_keystroke news_env ''k'' (typing '';cloc'') =
     (None, \<lparr>mode = Clock, command_buffer = [], typed_text = '';cloc'', y_offset = 150,
             clock_quotes = [''It was five past nine.''],
             display = [(Quotes ''It was five past nine.'', Shown)]\<rparr>) \<and>
   handle_keystroke (news_env\<lparr>get_quote := \<lambda>hour minute. None\<rparr>) ''k'' (typing '';cloc'') =
     (None, \<lparr>mode = Clock, command_buffer = [], typed_text = '';cloc'', y_offset = 150,
             clock_quotes = [''No quote found for 09:05''],
             display = [(Quotes ''No quote found for 09:05'', Shown)]\<rparr>) \<and>
   run_events (zip (replicate 8 news_env)
       (map Key [''h'', ''i'', '';'', ''c'', ''l'', ''o'', ''c'', ''k''])) (typing []) =
     (None, \<lparr>mode = Clock, command_buffer = [], typed_text = ''hi;cloc'', y_offset = 150,
             clock_quotes = [''It was five past nine.''],
             display =
               [(Page (150, 150) ''h'', Shown), (Page (150, 150) ''hi'', Shown),
                (Page (150, 150) ''hi;'', Shown), (Page (150, 150) ''hi;c'', Shown),
                (Page (150, 150) ''hi;cl'', Shown), (Page (150, 150) ''hi;clo'', Shown),
                (Page (150, 150) ''hi;cloc'', Shown),
                (Quotes ''It was five past nine.'', Shown)]\<rparr>)"
proof -
  have m: "mode (typing '';cloc'') = Typewriter"
    by (simp add: typing_def)
  have b: "endswith (keep_last 6 (command_buffer (typing '';cloc'') @ ''k'')) '';clock''"
    by (simp add: typing_def keep_last_def endswith_def)
  have q: "get_quote news_env (fst (now news_env)) (snd (now news_env)) =
      Some ''<br>It was <i>five past nine.</i><br>09:05:00<br>''"
    by (simp add: news_env_def)
  have c: "clean_quote_text ''<br>It was <i>five past nine.</i><br>09:05:00<br>'' =
      ''It was five past nine.''"
    by code_simp
  have w: "filled ''It was five past nine.'' = ''It was five past nine.''"
    by code_simp
  have o: "\<not> display_busy news_env"
    by (simp add: news_env_def)
  note inst = clock_command_enters_clock_mode[OF m, of "''k''" news_env]
  from inst b have k: "handle_keystroke news_env ''k'' (typing '';cloc'') =
      (None, (typing '';cloc'')\<lparr>mode := Clock, command_buffer := [],
                clock_quotes := [display_text news_env (now news_env)],
                display := display (typing '';cloc'') @
                  [(Quotes (filled (display_text news_env (now news_env))), outcome news_env)]\<rparr>)"
    by blast
  from inst have d: "display_text news_env (now news_env) = ''It was five past nine.''"
    by (simp add: q c)
  from inst o have oc: "outcome news_env = Shown"
    by simp
  have k': "handle_keystroke news_env ''k'' (typing '';cloc'') =
     (None, \<lparr>mode = Clock, command_buffer = [], typed_text = '';cloc'', y_offset = 150,
             clock_quotes = [''It was five past nine.''],
             display = [(Quotes ''It was five past nine.'', Shown)]\<rparr>)"
    unfolding k d w oc by (simp add: typing_def)
  have n: "handle_keystroke (news_env\<lparr>get_quote := \<lambda>hour minute. None\<rparr>) ''k'' (typing '';cloc'') =
     (None, \<lparr>mode = Clock, command_buffer = [], typed_text = '';cloc'', y_offset = 150,
             clock_quotes = [''No quote found for 09:05''],
             display = [(Quotes ''No quote found for 09:05'', Shown)]\<rparr>)"
    by code_simp
  have r: "run_events (zip (replicate 8 news_env)
       (map Key [''h'', ''i'', '';'', ''c'', ''l'', ''o'', ''c'', ''k''])) (typing []) =
     (None, \<lparr>mode = Clock, command_buffer = [], typed_text = ''hi;cloc'', y_offset = 150,
             clock_quotes = [''It was five past nine.''],
             display =
               [(Page (150, 150) ''h'', Shown), (Page (150, 150) ''hi'', Shown),
                (Page (150, 150) ''hi;'', Shown), (Page (150, 150) ''hi;c'', Shown),
                (Page (150, 150) ''hi;cl'', Shown), (Page (150, 150) ''hi;clo'', Shown),
                (Page (150, 150) ''hi;cloc'', Shown),
                (Quotes ''It was five past nine.'', Shown)]\<rparr>)"
    by code_simp
  from k' n r show ?thesis by simp
qed

section \<open>Keys in Typewriter mode\<close>

lemma keep_last_suffix: "endswith b (keep_last n b)"
proof (cases "n < length b")
  case True
  then have "length b - (length b - n) = n" by simp
  with True show ?thesis by (simp add: endswith_def keep_last_def)
next
  case False
  then show ?thesis by (simp add: endswith_def keep_last_def)
qed

text \<open>
  C7, as the code has it. In Typewriter mode a key that does not complete \<^verbatim>\<open>;clock\<close> is
  appended to CommandBuffer, which keeps its last six characters, and changes TypedText:
  \<^verbatim>\<open>space\<close> appends one space, \<^verbatim>\<open>backspace\<close> removes the last character (nothing when
  TypedText is empty), \<^verbatim>\<open>enter\<close> appends space, line break, space, any other key is
  appended as it is. The key that completes \<^verbatim>\<open>;clock\<close> is not applied to TypedText, and
  CommandBuffer is emptied.
\<close>

theorem typewriter_key_effect:
  assumes "mode s = Typewriter"
  shows "(\<not> endswith (keep_last 6 (command_buffer s @ key)) '';clock'' \<longrightarrow>
            fst (handle_keystroke e key s) = None \<and>
            command_buffer (snd (handle_keystroke e key s)) = keep_last 6 (command_buffer s @ key) \<and>
            typed_text (snd (handle_keystroke e key s)) =
              (if key = ''space'' then typed_text s @ '' ''
               else if key = ''backspace'' then butlast (typed_text s)
               else if key = ''enter'' then typed_text s @ [CHR '' '', CHR 0x0A, CHR '' '']
               else typed_text s @ key)) \<and>
         (endswith (keep_last 6 (command_buffer s @ key)) '';clock'' \<longrightarrow>
            typed_text (snd (handle_keystroke e key s)) = typed_text s \<and>
            command_buffer (snd (handle_keystroke e key s)) = []) \<and>
         length (keep_last 6 (command_buffer s @ key)) \<le> 6 \<and>
         endswith (command_buffer s @ key) (keep_last 6 (command_buffer s @ key))"
  using assms keep_last_suffix[of "command_buffer s @ key" 6]
  by (simp add: handle_keystroke_eq typed_def keep_last_length)

theorem typewriter_key_effect_witness:
  "typed_text (snd (handle_keystroke quiet_env ''space'' (typing ''ab''))) = ''ab '' \<and>
   typed_text (snd (handle_keystroke quiet_env ''backspace'' (typing ''ab''))) = ''a'' \<and>
   typed_text (snd (handle_keystroke quiet_env ''backspace'' (typing []))) = [] \<and>
   typed_text (snd (handle_keystroke quiet_env ''enter'' (typing ''ab''))) = [CHR ''a'', CHR ''b'', CHR '' '', CHR 0x0A, CHR '' ''] \<and>
   typed_text (snd (handle_keystroke quiet_env ''c'' (typing ''ab''))) = ''abc'' \<and>
   command_buffer (snd (handle_keystroke quiet_env ''g'' (typing ''abcdef''))) = ''bcdefg'' \<and>
   typed_text (snd (handle_keystroke quiet_env ''k'' (typing '';cloc''))) = '';cloc'' \<and>
   command_buffer (snd (handle_keystroke quiet_env ''k'' (typing '';cloc''))) = []"
proof -
  have m: "mode (typing t) = Typewriter" for t
    by (simp add: typing_def)
  have f: "command_buffer (typing ''ab'') = ''ab''" "command_buffer (typing []) = []"
    "command_buffer (typing ''abcdef'') = ''abcdef''" "command_buffer (typing '';cloc'') = '';cloc''"
    "typed_text (typing t) = t" for t
    by (simp_all add: typing_def keep_last_def)
  from typewriter_key_effect[OF m, of "''ab''" "''space''" quiet_env]
       typewriter_key_effect[OF m, of "''ab''" "''backspace''" quiet_env]
       typewriter_key_effect[OF m, of "[]" "''backspace''" quiet_env]
       typewriter_key_effect[OF m, of "''ab''" "''enter''" quiet_env]
       typewriter_key_effect[OF m, of "''ab''" "''c''" quiet_env]
       typewriter_key_effect[OF m, of "''abcdef''" "''g''" quiet_env]
       typewriter_key_effect[OF m, of "'';cloc''" "''k''" quiet_env]
  show ?thesis
    by (simp add: f keep_last_def endswith_def)
qed

text \<open>
  The claim as stated, that every key handled in Typewriter mode is appended to TypedText
  and to CommandBuffer, fails at the key that completes the command: from the first state, a key to leave Clock
  mode and then \<^verbatim>\<open>;clock\<close> leave TypedText at \<^verbatim>\<open>;cloc\<close> and CommandBuffer empty.
\<close>

theorem command_key_not_typed:
  "typed_text (snd (run_events (zip (replicate 7 quiet_env)
       (map Key [''x'', '';'', ''c'', ''l'', ''o'', ''c'', ''k''])) first_state)) = '';cloc'' \<and>
   command_buffer (snd (run_events (zip (replicate 7 quiet_env)
       (map Key [''x'', '';'', ''c'', ''l'', ''o'', ''c'', ''k''])) first_state)) = []"
  by code_simp

section \<open>Control keys in the command buffer\<close>

lemma drop_to_last:
  assumes "b \<noteq> []"
  shows "drop (length b - Suc 0) b = [last b]"
proof -
  have "drop (length (butlast b)) (butlast b @ [last b]) = [last b]" by simp
  with assms show ?thesis by simp
qed

lemma keep_last_token5:
  assumes "length tok = 5"
  shows "keep_last 6 (b @ tok) = (if b = [] then tok else last b # tok)"
proof (cases "b = []")
  case True
  with assms show ?thesis by (simp add: keep_last_def)
next
  case False
  show ?thesis
  proof (cases "Suc 0 < length b")
    case True
    then have "length b + 5 - 6 = length b - Suc 0" by simp
    with True False assms drop_to_last[OF False] show ?thesis
      by (simp add: keep_last_def)
  next
    case short: False
    with False have "length b - Suc 0 = 0" by (cases b) auto
    with drop_to_last[OF False] have "b = [last b]" by simp
    then have "b @ tok = last b # tok" by (metis append_Cons append_Nil)
    with short False assms show ?thesis
      by (simp add: keep_last_def)
  qed
qed

text \<open>
  C10. The decoder turns the space, backspace and enter keys into the strings \<^verbatim>\<open>space\<close>
  (5 characters), \<^verbatim>\<open>backspace\<close> (9) and \<^verbatim>\<open>enter\<close> (5), and in Typewriter mode the handler
  appends that string to CommandBuffer before trimming it to six characters. After
  \<^verbatim>\<open>backspace\<close> the buffer is \<^verbatim>\<open>kspace\<close> whatever it held (nothing is deleted from its end,
  and nothing of a partly typed command is left); after \<^verbatim>\<open>space\<close> or \<^verbatim>\<open>enter\<close> at most the
  last earlier character is left.
\<close>

theorem control_keys_append_token_names:
  "evdev_key_to_char shift_pressed ''KEY_SPACE'' = Some ''space'' \<and>
   evdev_key_to_char shift_pressed ''KEY_BACKSPACE'' = Some ''backspace'' \<and>
   evdev_key_to_char shift_pressed ''KEY_ENTER'' = Some ''enter'' \<and>
   length ''space'' = 5 \<and> length ''backspace'' = 9 \<and> length ''enter'' = 5 \<and>
   (mode s = Typewriter \<longrightarrow>
      command_buffer (snd (handle_keystroke e ''space'' s)) =
        keep_last 6 (command_buffer s @ ''space'') \<and>
      command_buffer (snd (handle_keystroke e ''backspace'' s)) =
        keep_last 6 (command_buffer s @ ''backspace'') \<and>
      command_buffer (snd (handle_keystroke e ''enter'' s)) =
        keep_last 6 (command_buffer s @ ''enter'') \<and>
      keep_last 6 (command_buffer s @ ''backspace'') = ''kspace'' \<and>
      keep_last 6 (command_buffer s @ ''space'') =
        (if command_buffer s = [] then ''space'' else last (command_buffer s) # ''space'') \<and>
      keep_last 6 (command_buffer s @ ''enter'') =
        (if command_buffer s = [] then ''enter'' else last (command_buffer s) # ''enter''))"
proof -
  have dec: "evdev_key_to_char shift_pressed ''KEY_SPACE'' = Some ''space''"
    "evdev_key_to_char shift_pressed ''KEY_BACKSPACE'' = Some ''backspace''"
    "evdev_key_to_char shift_pressed ''KEY_ENTER'' = Some ''enter''"
    by (simp_all add: evdev_key_to_char_def)
  have bs: "keep_last 6 (command_buffer s @ ''backspace'') = ''kspace''"
    by (simp add: keep_last_def)
  have sp: "keep_last 6 (command_buffer s @ ''space'') =
      (if command_buffer s = [] then ''space'' else last (command_buffer s) # ''space'')"
    by (rule keep_last_token5) simp
  have en: "keep_last 6 (command_buffer s @ ''enter'') =
      (if command_buffer s = [] then ''enter'' else last (command_buffer s) # ''enter'')"
    by (rule keep_last_token5) simp
  have no: "\<not> endswith (keep_last 6 (command_buffer s @ ''space'')) '';clock''"
    "\<not> endswith (keep_last 6 (command_buffer s @ ''backspace'')) '';clock''"
    "\<not> endswith (keep_last 6 (command_buffer s @ ''enter'')) '';clock''"
    unfolding sp bs en by (simp_all add: endswith_def)
  have h: "mode s = Typewriter \<Longrightarrow>
      command_buffer (snd (handle_keystroke e ''space'' s)) =
        keep_last 6 (command_buffer s @ ''space'') \<and>
      command_buffer (snd (handle_keystroke e ''backspace'' s)) =
        keep_last 6 (command_buffer s @ ''backspace'') \<and>
      command_buffer (snd (handle_keystroke e ''enter'' s)) =
        keep_last 6 (command_buffer s @ ''enter'')"
    using no by (simp add: handle_keystroke_eq)
  from dec bs sp en h show ?thesis by simp
qed

theorem control_keys_append_token_names_witness:
  "command_buffer (snd (handle_keystroke quiet_env ''backspace'' (typing '';cloc''))) = ''kspace'' \<and>
   command_buffer (snd (handle_keystroke quiet_env ''space'' (typing '';cloc''))) = ''cspace'' \<and>
   command_buffer (snd (handle_keystroke quiet_env ''enter'' (typing '';cloc''))) = ''center'' \<and>
   command_buffer (snd (handle_keystroke quiet_env ''enter'' (typing []))) = ''enter''"
proof -
  have m: "mode (typing t) = Typewriter" for t
    by (simp add: typing_def)
  have b: "command_buffer (typing '';cloc'') = '';cloc''" "command_buffer (typing []) = []"
    by (simp_all add: typing_def keep_last_def)
  from control_keys_append_token_names[of False "typing '';cloc''" quiet_env]
       control_keys_append_token_names[of False "typing []" quiet_env]
  show ?thesis
    by (simp add: m b)
qed

section \<open>The quote history\<close>

lemma reachable_run_events: "reachable s \<Longrightarrow> reachable (snd (run_events evs s))"
proof (induction evs arbitrary: s)
  case Nil
  then show ?case by simp
next
  case (Cons a evs)
  obtain e ev where a: "a = (e, ev)" by (cases a)
  have "handle_event e ev s = (None, snd (handle_event e ev s))"
    using handle_event_returns[of e ev s] by (cases "handle_event e ev s") simp
  with Cons.prems have "reachable (snd (handle_event e ev s))"
    by (rule reachable.step)
  from Cons.IH[OF this] show ?case
    by (simp only: a run_events_Cons)
qed

definition full_state :: app where
  \<comment> \<open>an example: the first state after fourteen more clock updates\<close>
  "full_state = snd (run_events (replicate 14 (quiet_env, ClockUpdate 12 0)) first_state)"

lemma reachable_full_state: "reachable full_state"
  unfolding full_state_def using reachable_first_state by (rule reachable_run_events)

lemma replicate_14_15:
  "replicate 14 x = [x, x, x, x, x, x, x, x, x, x, x, x, x, x]"
  "replicate 15 x = [x, x, x, x, x, x, x, x, x, x, x, x, x, x, x]"
  by (simp_all add: numeral_eq_Suc)

lemma clock_quotes_full_state:
  "clock_quotes full_state = replicate 15 ''No quote found for 12:00''"
  by (simp add: full_state_def replicate_14_15 run_events_Cons handle_event_def
      update_clock_display_eq push_quote_def display_text_quiet first_state_def
      del: run_events.simps(2))

text \<open>
  C8. In every state the event loop reaches QuoteHistory has at most 15 entries, and so
  it has after the next event. A quote appended to 15 entries evicts the oldest and
  keeps the order of the rest; below 15 it is appended.
\<close>

theorem quote_history_bounded:
  assumes "reachable s"
  shows "length (clock_quotes s) \<le> 15 \<and>
         length (clock_quotes (snd (handle_event e ev s))) \<le> 15 \<and>
         (length (clock_quotes s) = 15 \<longrightarrow>
            clock_quotes (snd (update_clock_display e' t s)) =
              tl (clock_quotes s) @ [display_text e' t]) \<and>
         (length (clock_quotes s) < 15 \<longrightarrow>
            clock_quotes (snd (update_clock_display e' t s)) =
              clock_quotes s @ [display_text e' t])"
proof -
  have "handle_event e ev s = (None, snd (handle_event e ev s))"
    using handle_event_returns[of e ev s] by (cases "handle_event e ev s") simp
  with assms have "reachable (snd (handle_event e ev s))"
    by (rule reachable.step)
  from reachable_inv[OF this] reachable_inv[OF assms] show ?thesis
    by (cases "clock_quotes s") (simp_all add: update_clock_display_eq push_quote_def)
qed

theorem quote_history_bounded_witness:
  "length (clock_quotes full_state) = 15 \<and>
   clock_quotes (snd (update_clock_display quiet_env (12, 5) full_state)) =
     replicate 14 ''No quote found for 12:00'' @ [''No quote found for 12:05''] \<and>
   length (clock_quotes first_state) < 15 \<and>
   clock_quotes (snd (update_clock_display quiet_env (12, 5) first_state)) =
     [''No quote found for 12:00'', ''No quote found for 12:05'']"
proof -
  have d: "display_text quiet_env (12, 5) = ''No quote found for 12:05''"
    by code_simp
  have t: "tl (replicate 15 ''No quote found for 12:00'') = replicate 14 ''No quote found for 12:00''"
    by (simp add: replicate_14_15)
  from quote_history_bounded[OF reachable_full_state, of quiet_env "Key []" quiet_env "(12, 5)"]
       quote_history_bounded[OF reachable_first_state, of quiet_env "Key []" quiet_env "(12, 5)"]
  show ?thesis
    by (simp add: clock_quotes_full_state d t) (simp add: first_state_def)
qed

section \<open>A busy display\<close>

definition busy_env :: env where
  "busy_env = quiet_env\<lparr>display_busy := True\<rparr>"

definition is_key :: "event \<Rightarrow> bool" where
  "is_key ev = (case ev of Key data \<Rightarrow> True | ClockUpdate hour minute \<Rightarrow> False)"

text \<open>
  C9, as the code has it. When the hand-off to the display raises \<^verbatim>\<open>TimeoutError\<close>, the
  renderer passes it on, the caller (\<^verbatim>\<open>_process_typewriter_key\<close>,
  \<^verbatim>\<open>_update_clock_display\<close>) catches it and returns normally, and the state is the one the
  render was called with, its mode, CommandBuffer, TypedText and QuoteHistory untouched
  (the typewriter render has moved the offset before the hand-off). A whole event handled
  with a busy display leaves the same state as with a free one, apart from the display.
  The next event makes a fresh render attempt, unless it is a key received in Clock mode,
  which switches the mode and renders nothing.
\<close>

theorem timeout_keeps_state:
  assumes "display_busy e"
  shows "fst (render_typewriter e s) = Some TimeoutError \<and>
         process_typewriter_key e key s =
           (None, snd (render_typewriter e (s\<lparr>typed_text := typed key (typed_text s)\<rparr>))) \<and>
         mode (snd (render_typewriter e s)) = mode s \<and>
         command_buffer (snd (render_typewriter e s)) = command_buffer s \<and>
         typed_text (snd (render_typewriter e s)) = typed_text s \<and>
         clock_quotes (snd (render_typewriter e s)) = clock_quotes s \<and>
         fst (render_clock_display e s) = Some TimeoutError \<and>
         update_clock_display e t s =
           (None, snd (render_clock_display e
              (s\<lparr>clock_quotes := push_quote (display_text e t) (clock_quotes s)\<rparr>))) \<and>
         mode (snd (render_clock_display e s)) = mode s \<and>
         command_buffer (snd (render_clock_display e s)) = command_buffer s \<and>
         typed_text (snd (render_clock_display e s)) = typed_text s \<and>
         clock_quotes (snd (render_clock_display e s)) = clock_quotes s \<and>
         y_offset (snd (render_clock_display e s)) = y_offset s \<and>
         fst (handle_event e ev s) = None \<and>
         (snd (handle_event e ev s))\<lparr>display := []\<rparr> =
           (snd (handle_event (e\<lparr>display_busy := False\<rparr>) ev s))\<lparr>display := []\<rparr> \<and>
         (\<not> (mode s = Clock \<and> is_key ev') \<longrightarrow>
            length (display (snd (handle_event e' ev' s))) = Suc (length (display s)))"
proof -
  have "(snd (handle_event e ev s))\<lparr>display := []\<rparr> =
           (snd (handle_event (e\<lparr>display_busy := False\<rparr>) ev s))\<lparr>display := []\<rparr>"
    by (cases ev)
       (simp_all add: handle_event_def handle_keystroke_eq update_clock_display_eq display_text_def)
  moreover have "\<not> (mode s = Clock \<and> is_key ev') \<longrightarrow>
            length (display (snd (handle_event e' ev' s))) = Suc (length (display s))"
    by (cases ev')
       (simp_all add: handle_event_def handle_keystroke_eq update_clock_display_eq is_key_def)
  ultimately show ?thesis
    using assms
    by (simp add: render_typewriter_eq render_clock_display_eq process_typewriter_key_eq
        update_clock_display_eq handle_event_returns)
qed

theorem timeout_keeps_state_witness:
  "display_busy busy_env \<and>
   process_typewriter_key busy_env ''c'' (typing ''ab'') =
     (None, \<lparr>mode = Typewriter, command_buffer = ''ab'', typed_text = ''abc'', y_offset = 150,
             clock_quotes = [''No quote found for 12:00''],
             display = [(Page (150, 150) ''abc'', Busy)]\<rparr>) \<and>
   update_clock_display busy_env (12, 5) first_state =
     (None, \<lparr>mode = Clock, command_buffer = [], typed_text = [], y_offset = 150,
             clock_quotes = [''No quote found for 12:00'', ''No quote found for 12:05''],
             display = [(Quotes ''No quote found for 12:00'', Shown),
                        (Quotes ''No quote found for 12:00\<newline>\<newline>\<newline>No quote found for 12:05'', Busy)]\<rparr>) \<and>
   length (display (snd (handle_event quiet_env (Key ''d'')
     (snd (process_typewriter_key busy_env ''c'' (typing ''ab'')))))) = 2"
proof -
  have b: "display_busy busy_env"
    by (simp add: busy_env_def)
  have p: "process_typewriter_key busy_env ''c'' (typing ''ab'') =
     (None, \<lparr>mode = Typewriter, command_buffer = ''ab'', typed_text = ''abc'', y_offset = 150,
             clock_quotes = [''No quote found for 12:00''],
             display = [(Page (150, 150) ''abc'', Busy)]\<rparr>)"
    by code_simp
  have u: "update_clock_display busy_env (12, 5) first_state =
     (None, \<lparr>mode = Clock, command_buffer = [], typed_text = [], y_offset = 150,
             clock_quotes = [''No quote found for 12:00'', ''No quote found for 12:05''],
             display = [(Quotes ''No quote found for 12:00'', Shown),
                        (Quotes ''No quote found for 12:00\<newline>\<newline>\<newline>No quote found for 12:05'', Busy)]\<rparr>)"
    by code_simp
  from timeout_keeps_state[OF b, of "snd (process_typewriter_key busy_env ''c'' (typing ''ab''))"
         "''c''" "(12, 5)" "Key ''d''" "Key ''d''" quiet_env]
  have "length (display (snd (handle_event quiet_env (Key ''d'')
     (snd (process_typewriter_key busy_env ''c'' (typing ''ab'')))))) = 2"
    by (simp add: p is_key_def)
  with b p u show ?thesis by simp
qed

text \<open>
  The claim as stated has the next event after a failed render make a fresh attempt. When
  the first render of the run fails and a key follows, the key only leaves Clock mode: the
  display has been handed nothing more.
\<close>

theorem key_after_timeout_renders_nothing:
  "startup busy_env =
     (None, \<lparr>mode = Clock, command_buffer = [], typed_text = [], y_offset = 150,
             clock_quotes = [''No quote found for 12:00''],
             display = [(Quotes ''No quote found for 12:00'', Busy)]\<rparr>) \<and>
   display (snd (handle_event quiet_env (Key ''a'') (snd (startup busy_env)))) =
     [(Quotes ''No quote found for 12:00'', Busy)]"
  by code_simp

section \<open>The scroll offset\<close>












section \<open>Word wrapping\<close>















end
